theory Spec2Isabelle
  imports Main "HOL-Library.Multiset"
begin

section \<open>Python string operations used by pygoogle.py\<close>

text \<open>
  A Python \<open>str\<close> is modelled as a HOL \<open>string\<close>: one \<open>char\<close> per code point, for
  the code points below 256. The operations below are the ones the program calls,
  restricted to the way it calls them (single-character separators).
\<close>

text \<open>\<open>s.split(c)\<close> for a one-character separator: never empty, one more piece than
  there are occurrences of \<open>c\<close>.\<close>

primrec split :: "char \<Rightarrow> string \<Rightarrow> string list" where
  "split c [] = [[]]"
| "split c (x # xs) =
     (if x = c then [] # split c xs
      else (x # hd (split c xs)) # tl (split c xs))"

text \<open>\<open>sep.join(ws)\<close>.\<close>

fun join :: "string \<Rightarrow> string list \<Rightarrow> string" where
  "join sep [] = []"
| "join sep [w] = w"
| "join sep (w # v # ws) = w @ sep @ join sep (v # ws)"

text \<open>\<open>s.replace(c, '')\<close> for a one-character \<open>c\<close>: every occurrence is removed.\<close>

definition replace_empty :: "char \<Rightarrow> string \<Rightarrow> string" where
  "replace_empty c s = filter (\<lambda>x. x \<noteq> c) s"

text \<open>\<open>str.isspace\<close> on one character, for code points below 256: TAB, LF, VT, FF, CR,
  the separators FS, GS, RS, US, the space, NEL and the no-break space.\<close>

definition isspace :: "char \<Rightarrow> bool" where
  "isspace c = (of_char c \<in> {9, 10, 11, 12, 13, 28, 29, 30, 31, 32, 133, 160 :: nat})"

definition lstrip :: "string \<Rightarrow> string" where
  "lstrip s = dropWhile isspace s"

definition rstrip :: "string \<Rightarrow> string" where
  "rstrip s = rev (dropWhile isspace (rev s))"

definition startswith :: "string \<Rightarrow> string \<Rightarrow> bool" where
  "startswith s p = (take (length p) s = p)"

definition endswith :: "string \<Rightarrow> string \<Rightarrow> bool" where
  "endswith s p = (length p \<le> length s \<and> drop (length s - length p) s = p)"

section \<open>Errors\<close>

text \<open>
  The exceptions the program can raise, as values. \<open>IndexError\<close> is what
  \<open>split_query[1]\<close> raises in \<open>normalize_sig\<close> (the specification calls it
  MalformedSignature); \<open>SyntaxError\<close> is \<open>ast.parse\<close> failing; \<open>OSError\<close> is a file
  that cannot be opened, read or written; \<open>AttributeError\<close> is reading \<open>name\<close> of a
  node that has none.
\<close>

datatype error = IndexError | SyntaxError | OSError | AttributeError

section \<open>Decimal rendering of integers\<close>

text \<open>\<open>str(n)\<close> for a Python \<open>int\<close>, used by \<open>get_signature\<close> for the line number.\<close>

definition digit_char :: "nat \<Rightarrow> char" where
  "digit_char d = char_of (48 + d)"

function str_nat :: "nat \<Rightarrow> string" where
  "str_nat n = (if n < 10 then [digit_char n] else str_nat (n div 10) @ [digit_char (n mod 10)])"
  by pat_completeness auto
termination
  by (relation "measure (\<lambda>n. n)") auto

definition str_int :: "int \<Rightarrow> string" where
  "str_int i = (if i < 0 then CHR ''-'' # str_nat (nat (- i)) else str_nat (nat i))"

section \<open>Function records and their signatures\<close>

text \<open>
  The dictionary the source calls \<open>FunctionType\<close>: keys \<open>name\<close>, \<open>args\<close>, \<open>filename\<close> and
  \<open>line\<close>.
\<close>

record function_type =
  name :: string
  args :: "string list"
  filename :: string
  line :: int

text \<open>
  \<open>get_signature\<close>: the loop appends \<open>str(a) + ', '\<close> for every argument, and \<open>args[:-2]\<close>
  drops the last two characters (of the empty string it is the empty string).
\<close>

definition get_signature :: "function_type \<Rightarrow> bool \<Rightarrow> string" where
  "get_signature function file_infos =
     (let args' = foldl (\<lambda>acc a. acc @ a @ '', '') [] (args function);
          signature = name function @ ''('' @ take (length args' - 2) args' @ '')''
      in if file_infos
         then filename function @ '':'' @ str_int (line function) @ '' '' @ signature
         else signature)"

section \<open>normalize\<close>

text \<open>
  \<open>split_query[0]\<close> and \<open>split_query[1]\<close> are the first two pieces of the split at
  \<open>(\<close>; with fewer than two pieces the index raises. The source reassigns \<open>name\<close> and
  \<open>args\<close>; here each value has a name of its own.
\<close>

definition normalize_sig :: "string \<Rightarrow> error + string" where
  "normalize_sig query =
     (let split_query = split CHR ''('' query in
      case split_query of
        name0 # args0 # _ \<Rightarrow>
          (let name1 = join ''_'' (filter (\<lambda>a. a \<noteq> []) (split CHR '' '' name0));
               args1 = replace_empty CHR '')'' args0;
               args2 = join '', '' (map (\<lambda>a. rstrip (lstrip a)) (split CHR '','' args1))
           in Inr (name1 @ '' ( '' @ args2 @ '' )''))
      | _ \<Rightarrow> Inl IndexError)"

section \<open>The parsed tree\<close>

text \<open>
  What the program reads of a Python syntax tree. A \<open>FunctionDef\<close> node carries its
  \<open>name\<close>, the names of \<open>node.args.args\<close> in declaration order, its \<open>lineno\<close> and its
  child nodes. An \<open>AsyncFunctionDef\<close> node (an \<open>async def\<close>) has the same attributes
  but is of another class: \<open>isinstance(node, ast.FunctionDef)\<close> is false of it. \<open>Node\<close>
  is a node of any other class (a module, a class, a statement, an expression) with
  its child nodes.
\<close>

datatype ast =
    FunctionDef string "string list" int "ast list"
  | AsyncFunctionDef string "string list" int "ast list"
  | Node "ast list"

primrec children :: "ast \<Rightarrow> ast list" where
  "children (FunctionDef n as l cs) = cs"
| "children (AsyncFunctionDef n as l cs) = cs"
| "children (Node cs) = cs"

text \<open>
  \<open>ast.walk\<close>: a queue that starts with the root; each step pops the first node,
  appends its children to the queue and yields the node (breadth first).
\<close>

function walk_todo :: "ast list \<Rightarrow> ast list" where
  "walk_todo [] = []"
| "walk_todo (node # todo) = node # walk_todo (todo @ children node)"
  by pat_completeness auto
termination
proof (relation "measure (\<lambda>todo. sum_list (map size todo))")
  show "wf (measure (\<lambda>todo. sum_list (map size todo)))"
    by simp
next
  fix node :: ast and todo :: "ast list"
  have le: "sum_list (map size cs) \<le> size_list size cs" for cs :: "ast list"
    by (induction cs) auto
  have "sum_list (map size (children node)) < size node"
    by (cases node) (simp_all add: le le_imp_less_Suc)
  then show "(todo @ children node, node # todo) \<in> measure (\<lambda>todo. sum_list (map size todo))"
    by simp
qed

definition walk :: "ast \<Rightarrow> ast list" where
  "walk node = walk_todo [node]"

section \<open>The edit distance\<close>

text \<open>
  Modelled from the spec: the module \<open>levenshtein\<close> that \<open>sort\<close> imports \<open>lev\<close> from is
  not among the sources. The specification describes it as the unweighted Levenshtein
  distance: substitution, insertion and deletion cost 1 each.
\<close>

fun lev :: "string \<Rightarrow> string \<Rightarrow> nat" where
  "lev [] ys = length ys"
| "lev xs [] = length xs"
| "lev (x # xs) (y # ys) =
     min (min (lev xs (y # ys) + 1) (lev (x # xs) ys + 1))
         (lev xs ys + (if x = y then 0 else 1))"

section \<open>sort\<close>

text \<open>
  The loop of \<open>sort\<close> appends one pair \<open>(lev(query, normalize(get_signature(f))), f)\<close>
  per function; an exception of \<open>normalize\<close> leaves the loop. \<open>sorted\<close> with a key is
  stable, as the insertion sort \<open>sort_key\<close> is.
\<close>

fun sort_loop ::
  "string \<Rightarrow> function_type list \<Rightarrow> (nat \<times> function_type) list \<Rightarrow>
   error + (nat \<times> function_type) list" where
  "sort_loop query [] sorted_functions = Inr sorted_functions"
| "sort_loop query (f # functions) sorted_functions =
     (case normalize_sig (get_signature f False) of
        Inl e \<Rightarrow> Inl e
      | Inr n \<Rightarrow> sort_loop query functions (sorted_functions @ [(lev query n, f)]))"

definition sort_functions ::
  "string \<Rightarrow> function_type list \<Rightarrow> error + (nat \<times> function_type) list" where
  "sort_functions query functions =
     (case sort_loop query functions [] of
        Inl e \<Rightarrow> Inl e
      | Inr sorted_functions \<Rightarrow> Inr (sort_key fst sorted_functions))"

section \<open>The file system and index_folder\<close>

type_synonym ref = nat

text \<open>
  What \<open>index_folder\<close> reads and writes outside its arguments:
  \<^item> \<open>json_output\<close>: the list stored in the file \<open>functions.json\<close>, \<open>None\<close> when the file
    does not exist (\<open>json.dumps\<close> and \<open>json.load\<close> are taken to round-trip);
  \<^item> \<open>json_writable\<close>: whether \<open>save_json\<close> can write that file;
  \<^item> \<open>iglob\<close>: the paths \<open>glob.iglob(pattern, recursive=True)\<close> yields, in order;
  \<^item> \<open>isfile\<close>: \<open>os.path.isfile\<close>;
  \<^item> \<open>source_text\<close>: the text of a file, \<open>None\<close> when it cannot be opened or read;
  \<^item> \<open>ast_parse\<close>: \<open>ast.parse\<close>, \<open>None\<close> when the text is not valid source;
  \<^item> \<open>os_path_abspath\<close>: \<open>os.path.abspath\<close>;
  \<^item> \<open>list_objects\<close>: the list objects of the process by reference, since
    \<open>folders_to_ignore += STDLIB_IGNORE\<close> extends the list the caller passed, in place,
    by what the list \<open>STDLIB_IGNORE\<close> holds at that moment.
  The calls of the logger only report and are left out.
\<close>

record world =
  json_output :: "function_type list option"
  json_writable :: bool
  iglob :: "string \<Rightarrow> string list"
  isfile :: "string \<Rightarrow> bool"
  source_text :: "string \<Rightarrow> string option"
  ast_parse :: "string \<Rightarrow> ast option"
  os_path_abspath :: "string \<Rightarrow> string"
  list_objects :: "ref \<Rightarrow> string list"

text \<open>The one list object that is the default value of \<open>folders_to_ignore\<close>, created
  empty when the function is defined.\<close>

definition folders_to_ignore_default :: ref where
  "folders_to_ignore_default = 0"

text \<open>
  \<open>STDLIB_IGNORE\<close> (line 20) is a list object of the module, as mutable as any other:
  a caller can pass it as \<open>folders_to_ignore\<close>, and then the append extends it by
  itself. \<open>list_objects_at_import\<close> is the state of the lists when the module has just
  been loaded: \<open>STDLIB_IGNORE\<close> holds its three entries, the default list is empty (as
  is, here, every other list).
\<close>

definition STDLIB_IGNORE :: ref where
  "STDLIB_IGNORE = 1"

definition list_objects_at_import :: "ref \<Rightarrow> string list" where
  "list_objects_at_import r =
     (if r = STDLIB_IGNORE then [''test'', ''site-packages'', ''lib2to3''] else [])"

definition read_source_file :: "world \<Rightarrow> string \<Rightarrow> error + string" where
  "read_source_file w fname =
     (case source_text w fname of None \<Rightarrow> Inl OSError | Some source \<Rightarrow> Inr source)"

definition save_json :: "function_type list \<Rightarrow> world \<Rightarrow> error + world" where
  "save_json content w =
     (if json_writable w then Inr (w\<lparr>json_output := Some content\<rparr>) else Inl OSError)"

definition read_json_file :: "world \<Rightarrow> error + function_type list" where
  "read_json_file w =
     (case json_output w of None \<Rightarrow> Inl OSError | Some content \<Rightarrow> Inr content)"

text \<open>\<open>get_function_from_node\<close> reads \<open>node.name\<close>, \<open>node.args.args\<close> and
  \<open>node.lineno\<close>: a \<open>FunctionDef\<close> and an \<open>AsyncFunctionDef\<close> node have them, a node
  of another class does not.\<close>

fun get_function_from_node :: "world \<Rightarrow> ast \<Rightarrow> string \<Rightarrow> bool \<Rightarrow> error + function_type" where
  "get_function_from_node w (FunctionDef n as l cs) file_path abspath =
     Inr \<lparr>name = n, args = as,
          filename = (if \<not> abspath then file_path else os_path_abspath w file_path),
          line = l\<rparr>"
| "get_function_from_node w (AsyncFunctionDef n as l cs) file_path abspath =
     Inr \<lparr>name = n, args = as,
          filename = (if \<not> abspath then file_path else os_path_abspath w file_path),
          line = l\<rparr>"
| "get_function_from_node w (Node cs) file_path abspath = Inl AttributeError"

text \<open>The test of line 110, on the list \<open>folders_to_ignore\<close> as it is after the
  append.\<close>

definition want_to_continue :: "string \<Rightarrow> string list \<Rightarrow> bool" where
  "want_to_continue fname folders_to_ignore =
     (let current_dir = split CHR ''/'' fname
      in endswith fname ''py'' \<and> set current_dir \<inter> set folders_to_ignore = {})"

text \<open>The loop over \<open>ast.walk(parsed)\<close> (lines 117 to 121).\<close>

fun index_nodes ::
  "world \<Rightarrow> string \<Rightarrow> ast list \<Rightarrow> function_type list \<Rightarrow> error + function_type list" where
  "index_nodes w fname [] functions = Inr functions"
| "index_nodes w fname (FunctionDef n as l cs # nodes) functions =
     (if \<not> startswith n ''__'' then
        (case get_function_from_node w (FunctionDef n as l cs) fname False of
           Inl e \<Rightarrow> Inl e
         | Inr new_function \<Rightarrow> index_nodes w fname nodes (functions @ [new_function]))
      else index_nodes w fname nodes functions)"
| "index_nodes w fname (AsyncFunctionDef n as l cs # nodes) functions =
     index_nodes w fname nodes functions"
| "index_nodes w fname (Node cs # nodes) functions = index_nodes w fname nodes functions"

text \<open>The loop over the paths of \<open>glob.iglob\<close> (lines 107 to 121).\<close>

fun index_files ::
  "world \<Rightarrow> string list \<Rightarrow> string list \<Rightarrow> function_type list \<Rightarrow> error + function_type list" where
  "index_files w folders_to_ignore [] functions = Inr functions"
| "index_files w folders_to_ignore (fname # fnames) functions =
     (if isfile w fname \<and> want_to_continue fname folders_to_ignore then
        (case read_source_file w fname of
           Inl e \<Rightarrow> Inl e
         | Inr source_code \<Rightarrow>
            (case ast_parse w source_code of
               None \<Rightarrow> Inl SyntaxError
             | Some parsed \<Rightarrow>
                (case index_nodes w fname (walk parsed) functions of
                   Inl e \<Rightarrow> Inl e
                 | Inr functions' \<Rightarrow> index_files w folders_to_ignore fnames functions')))
      else index_files w folders_to_ignore fnames functions)"

text \<open>
  \<open>index_folder\<close>. The argument \<open>folders_to_ignore\<close> is a reference to a list object,
  \<open>None\<close> when the caller leaves it out and the default object is bound. The result is
  the value returned or the exception raised, with the world after the call.
\<close>

definition index_folder ::
  "world \<Rightarrow> string \<Rightarrow> ref option \<Rightarrow> (error + function_type list) \<times> world" where
  "index_folder w base_folder folders_to_ignore_arg =
     (let folders_to_ignore =
            (case folders_to_ignore_arg of None \<Rightarrow> folders_to_ignore_default | Some r \<Rightarrow> r)
      in if json_output w \<noteq> None then (read_json_file w, w)
         else
           (let w1 = w\<lparr>list_objects := (list_objects w)
                        (folders_to_ignore :=
                           list_objects w folders_to_ignore @ list_objects w STDLIB_IGNORE)\<rparr>
            in case index_files w1 (list_objects w1 folders_to_ignore)
                      (iglob w1 (base_folder @ ''/**'')) [] of
                 Inl e \<Rightarrow> (Inl e, w1)
               | Inr functions \<Rightarrow>
                  (case save_json functions w1 of
                     Inl e \<Rightarrow> (Inl e, w1)
                   | Inr w2 \<Rightarrow> (Inr functions, w2))))"

section \<open>The nodes of a tree\<close>

text \<open>Every node of a tree, the root first: what a walk of the tree has to reach.\<close>

fun subnodes :: "ast \<Rightarrow> ast list" where
  "subnodes (FunctionDef n as l cs) = FunctionDef n as l cs # concat (map subnodes cs)"
| "subnodes (AsyncFunctionDef n as l cs) =
     AsyncFunctionDef n as l cs # concat (map subnodes cs)"
| "subnodes (Node cs) = Node cs # concat (map subnodes cs)"

section \<open>Example inputs\<close>

text \<open>
  A module with a class that defines \<open>__init__\<close> and \<open>_private\<close> (which has a nested
  function), and a function \<open>mainloop\<close> at top level.
\<close>

definition example_tree :: ast where
  "example_tree =
     Node [Node [FunctionDef ''__init__'' [''self''] 2 [Node []],
                 FunctionDef ''_private'' [''self'', ''x''] 4 [FunctionDef ''inner'' [] 5 []]],
           FunctionDef ''mainloop'' [] 9 []]"

text \<open>
  A directory \<open>proj\<close> with no cache beside it: \<open>proj/a.py\<close> holds the module above,
  \<open>proj/test/b.py\<close> lies in an ignored folder, \<open>proj/bad.py\<close> and \<open>proj/copy\<close> do not
  parse. \<open>glob\<close> yields the first two and the folders.
\<close>

definition example_world :: world where
  "example_world =
     \<lparr>json_output = None,
      json_writable = True,
      iglob = (\<lambda>pattern. if pattern = ''proj/**''
                 then [''proj/'', ''proj/a.py'', ''proj/test'', ''proj/test/b.py''] else []),
      isfile = (\<lambda>p. p \<in> set [''proj/a.py'', ''proj/test/b.py'', ''proj/bad.py'', ''proj/copy'']),
      source_text = (\<lambda>p. if p = ''proj/a.py'' then Some ''class A: ...''
                 else if p = ''proj/test/b.py'' then Some ''def t(): pass''
                 else if p = ''proj/bad.py'' then Some ''def (''
                 else if p = ''proj/copy'' then Some ''a copy''
                 else None),
      ast_parse = (\<lambda>source. if source = ''class A: ...'' then Some example_tree
                 else if source = ''def t(): pass'' then Some (Node [FunctionDef ''t'' [] 1 [Node []]])
                 else None),
      os_path_abspath = (\<lambda>p. ''/home/'' @ p),
      list_objects = list_objects_at_import\<rparr>"

text \<open>The same directory when \<open>glob\<close> also yields \<open>proj/bad.py\<close>, and when it yields
  \<open>proj/copy\<close>.\<close>

definition broken_world :: world where
  "broken_world = example_world\<lparr>iglob := \<lambda>pattern. [''proj/a.py'', ''proj/bad.py'']\<rparr>"

definition copy_world :: world where
  "copy_world = example_world\<lparr>iglob := \<lambda>pattern. [''proj/copy'']\<rparr>"

section \<open>Facts about the string operations\<close>

lemma split_not_Nil: "split c s \<noteq> []"
  by (induction s) auto

lemma split_no_sep: "c \<notin> set s \<Longrightarrow> split c s = [s]"
  by (induction s) auto

lemma split_append_sep: "c \<notin> set a \<Longrightarrow> split c (a @ c # b) = a # split c b"
  by (induction a) auto

lemma split_piece_no_sep: "w \<in> set (split c s) \<Longrightarrow> c \<notin> set w"
proof (induction s arbitrary: w)
  case Nil
  then show ?case by simp
next
  case (Cons x xs)
  show ?case
  proof (cases "x = c")
    case True
    with Cons show ?thesis by auto
  next
    case False
    obtain p ps where sp: "split c xs = p # ps"
      using split_not_Nil [of c xs] by (cases "split c xs") auto
    from Cons.prems False sp have "w = x # p \<or> w \<in> set ps" by simp
    then show ?thesis
    proof
      assume "w = x # p"
      moreover have "c \<notin> set p" using Cons.IH [of p] sp by simp
      ultimately show ?thesis using False by auto
    next
      assume "w \<in> set ps"
      then show ?thesis using Cons.IH [of w] sp by simp
    qed
  qed
qed

lemma split_piece_subset: "w \<in> set (split c s) \<Longrightarrow> set w \<subseteq> set s"
proof (induction s arbitrary: w)
  case Nil
  then show ?case by simp
next
  case (Cons x xs)
  obtain p ps where sp: "split c xs = p # ps"
    using split_not_Nil [of c xs] by (cases "split c xs") auto
  have "set p \<subseteq> set xs" using Cons.IH [of p] sp by simp
  moreover have "\<And>v. v \<in> set ps \<Longrightarrow> set v \<subseteq> set xs" using Cons.IH sp by simp
  ultimately show ?case using Cons.prems sp by (auto split: if_splits)
qed

lemma length_split: "length (split c s) = Suc (length (filter (\<lambda>x. x = c) s))"
proof (induction s)
  case Nil
  then show ?case by simp
next
  case (Cons x xs)
  then show ?case using split_not_Nil [of c xs] by (cases "split c xs") auto
qed

lemma set_join: "set (join sep ws) \<subseteq> set sep \<union> \<Union> (set ` set ws)"
  by (induction sep ws rule: join.induct) auto

lemma isspace_space: "isspace CHR '' ''"
  by (simp add: isspace_def)

lemma rstrip_decomp: "\<exists>z. s = rstrip s @ z"
proof -
  have "rev (takeWhile isspace (rev s) @ dropWhile isspace (rev s)) = s"
    by (simp only: takeWhile_dropWhile_id rev_rev_ident)
  then have "s = rstrip s @ rev (takeWhile isspace (rev s))"
    by (simp only: rev_append rstrip_def)
  then show ?thesis ..
qed

lemma rstrip_id: "t \<noteq> [] \<Longrightarrow> \<not> isspace (last t) \<Longrightarrow> rstrip t = t"
  by (cases t rule: rev_cases) (auto simp: rstrip_def)

lemma rstrip_space: "rstrip (t @ '' '') = rstrip t"
  by (simp add: rstrip_def isspace_space)

lemma lstrip_space: "lstrip (CHR '' '' # t) = lstrip t"
  by (simp add: lstrip_def isspace_space)

lemma lstrip_id: "t \<noteq> [] \<Longrightarrow> \<not> isspace (hd t) \<Longrightarrow> lstrip (t @ z) = t @ z"
  by (cases t) (auto simp: lstrip_def)

lemma strip_stripped:
  "rstrip (lstrip a) = [] \<or>
   (\<not> isspace (hd (rstrip (lstrip a))) \<and> \<not> isspace (last (rstrip (lstrip a))))"
proof (cases "rstrip (lstrip a) = []")
  case True
  then show ?thesis by simp
next
  case False
  obtain z where z: "lstrip a = rstrip (lstrip a) @ z" using rstrip_decomp by blast
  have ne: "lstrip a \<noteq> []" using False by (auto simp: rstrip_def)
  have "\<not> isspace (hd (lstrip a))" using ne unfolding lstrip_def by (rule hd_dropWhile)
  moreover have "hd (lstrip a) = hd (rstrip (lstrip a))" using z False by (metis hd_append2)
  moreover have "\<not> isspace (last (rstrip (lstrip a)))"
  proof -
    have "dropWhile isspace (rev (lstrip a)) \<noteq> []" using False by (simp add: rstrip_def)
    then have "\<not> isspace (hd (dropWhile isspace (rev (lstrip a))))" by (rule hd_dropWhile)
    then show ?thesis using False by (simp add: rstrip_def last_rev)
  qed
  ultimately show ?thesis by simp
qed

lemma strip_of_stripped:
  assumes "t = [] \<or> (\<not> isspace (hd t) \<and> \<not> isspace (last t))"
  shows "rstrip (lstrip (CHR '' '' # t)) = t" and "rstrip (lstrip (CHR '' '' # t @ '' '')) = t"
proof -
  show "rstrip (lstrip (CHR '' '' # t)) = t"
  proof (cases "t = []")
    case True
    then show ?thesis by (simp add: lstrip_def rstrip_def isspace_space)
  next
    case False
    with assms have "lstrip (t @ []) = t @ []" by (intro lstrip_id) auto
    with False assms show ?thesis by (simp add: lstrip_space rstrip_id)
  qed
  show "rstrip (lstrip (CHR '' '' # t @ '' '')) = t"
  proof (cases "t = []")
    case True
    then show ?thesis by (simp add: lstrip_def rstrip_def isspace_space)
  next
    case False
    with assms have "lstrip (t @ '' '') = t @ '' ''" by (intro lstrip_id) auto
    with False assms show ?thesis by (simp add: lstrip_space rstrip_space rstrip_id)
  qed
qed

lemma set_strip_subset: "set (rstrip (lstrip a)) \<subseteq> set a"
  by (auto simp: rstrip_def lstrip_def dest!: set_dropWhileD)


lemma resplit:
  assumes "ts \<noteq> []"
    and "\<forall>t\<in>set ts. CHR '','' \<notin> set t \<and> (t = [] \<or> (\<not> isspace (hd t) \<and> \<not> isspace (last t)))"
  shows "map (\<lambda>a. rstrip (lstrip a)) (split CHR '','' (CHR '' '' # join '', '' ts @ '' '')) = ts"
  using assms
proof (induction ts rule: induct_list012)
  case 1
  then show ?case by simp
next
  case One: (2 w)
  then have "CHR '','' \<notin> set (CHR '' '' # w @ '' '')" by simp
  then have "split CHR '','' (CHR '' '' # w @ '' '') = [CHR '' '' # w @ '' '']"
    by (rule split_no_sep)
  with One show ?case by (simp add: strip_of_stripped)
next
  case More: (3 w v ws)
  have eq: "CHR '' '' # join '', '' (w # v # ws) @ '' '' =
        (CHR '' '' # w) @ CHR '','' # (CHR '' '' # join '', '' (v # ws) @ '' '')"
    by simp
  have "CHR '','' \<notin> set (CHR '' '' # w)" using More.prems by simp
  then have "split CHR '','' (CHR '' '' # join '', '' (w # v # ws) @ '' '') =
        (CHR '' '' # w) # split CHR '','' (CHR '' '' # join '', '' (v # ws) @ '' '')"
    unfolding eq by (rule split_append_sep)
  moreover have "map (\<lambda>a. rstrip (lstrip a)) (split CHR '','' (CHR '' '' # join '', '' (v # ws) @ '' '')) = v # ws"
    using More by simp
  moreover have "rstrip (lstrip (CHR '' '' # w)) = w"
    using More.prems by (simp add: strip_of_stripped)
  ultimately show ?case by simp
qed

lemma split_two: "c \<in> set s \<Longrightarrow> \<exists>p q rest. split c s = p # q # rest"
proof -
  assume "c \<in> set s"
  then have "filter (\<lambda>x. x = c) s \<noteq> []" by (auto simp: filter_empty_conv)
  then have "2 \<le> length (split c s)" by (cases "filter (\<lambda>x. x = c) s") (auto simp: length_split)
  then show ?thesis by (cases "split c s"; cases "tl (split c s)") auto
qed

lemma normalize_sig_pieces:
  "split CHR ''('' x = n0 # a0 # rest \<Longrightarrow>
   normalize_sig x =
     Inr (join ''_'' (filter (\<lambda>a. a \<noteq> []) (split CHR '' '' n0)) @ '' ( '' @
          join '', '' (map (\<lambda>a. rstrip (lstrip a)) (split CHR '','' (replace_empty CHR '')'' a0))) @
          '' )'')"
  by (simp add: normalize_sig_def)

lemma name_roundtrip:
  assumes "CHR '' '' \<notin> set nm"
  shows "join ''_'' (filter (\<lambda>a. a \<noteq> []) (split CHR '' '' (nm @ '' ''))) = nm"
proof -
  have "split CHR '' '' (nm @ '' '') = [nm, []]"
    using split_append_sep [OF assms, of "[]"] by simp
  then show ?thesis by simp
qed

lemma normalize_sig_canonical:
  assumes nm: "CHR '' '' \<notin> set nm" "CHR ''('' \<notin> set nm"
    and ne: "ts \<noteq> []"
    and ts: "\<forall>t\<in>set ts. CHR '','' \<notin> set t \<and> (t = [] \<or> (\<not> isspace (hd t) \<and> \<not> isspace (last t)))"
    and par: "\<forall>t\<in>set ts. CHR ''('' \<notin> set t \<and> CHR '')'' \<notin> set t"
  shows "normalize_sig (nm @ '' ( '' @ join '', '' ts @ '' )'') = Inr (nm @ '' ( '' @ join '', '' ts @ '' )'')"
proof -
  let ?args = "join '', '' ts"
  have sub: "set ?args \<subseteq> set '', '' \<union> \<Union> (set ` set ts)" by (rule set_join)
  have open_args: "CHR ''('' \<notin> set ?args" using sub par by auto
  have close_args: "CHR '')'' \<notin> set ?args" using sub par by auto
  have "CHR ''('' \<notin> set (nm @ '' '')" using nm by simp
  then have "split CHR ''('' ((nm @ '' '') @ CHR ''('' # ('' '' @ ?args @ '' )'')) =
        (nm @ '' '') # split CHR ''('' ('' '' @ ?args @ '' )'')"
    by (rule split_append_sep)
  moreover have "split CHR ''('' ('' '' @ ?args @ '' )'') = ['' '' @ ?args @ '' )'']"
    using open_args by (intro split_no_sep) simp
  ultimately have sp: "split CHR ''('' (nm @ '' ( '' @ ?args @ '' )'') =
        (nm @ '' '') # ('' '' @ ?args @ '' )'') # []"
    by simp
  have rep: "replace_empty CHR '')'' ('' '' @ ?args @ '' )'') = CHR '' '' # ?args @ '' ''"
    using close_args by (auto simp: replace_empty_def filter_id_conv)
  show ?thesis
    unfolding normalize_sig_pieces [OF sp] rep
    by (simp only: name_roundtrip [OF nm(1)] resplit [OF ne ts])
qed

section \<open>Facts about sort\<close>

lemma normalize_sig_signature:
  "\<exists>n. normalize_sig (get_signature f False) = Inr n"
proof -
  have "CHR ''('' \<in> set (get_signature f False)"
    by (simp add: get_signature_def Let_def)
  then obtain p q rest where "split CHR ''('' (get_signature f False) = p # q # rest"
    using split_two by blast
  then show ?thesis by (simp add: normalize_sig_pieces)
qed

lemma sort_loop_scores:
  "\<exists>ns. map (\<lambda>f. normalize_sig (get_signature f False)) fs = map Inr ns \<and>
        sort_loop query fs acc = Inr (acc @ zip (map (lev query) ns) fs)"
proof (induction fs arbitrary: acc)
  case Nil
  then show ?case by simp
next
  case (Cons f fs)
  obtain n where n: "normalize_sig (get_signature f False) = Inr n"
    using normalize_sig_signature by blast
  obtain ns where ns: "map (\<lambda>f. normalize_sig (get_signature f False)) fs = map Inr ns"
    and loop: "sort_loop query fs (acc @ [(lev query n, f)]) =
        Inr ((acc @ [(lev query n, f)]) @ zip (map (lev query) ns) fs)"
    using Cons.IH [of "acc @ [(lev query n, f)]"] by blast
  have "map (\<lambda>f. normalize_sig (get_signature f False)) (f # fs) = map Inr (n # ns)"
    using n ns by simp
  moreover have "sort_loop query (f # fs) acc = Inr (acc @ zip (map (lev query) (n # ns)) (f # fs))"
    using n loop by simp
  ultimately show ?case by blast
qed

lemma sort_functions_scores:
  "\<exists>ns. map (\<lambda>f. normalize_sig (get_signature f False)) fs = map Inr ns \<and>
        sort_functions query fs = Inr (sort_key fst (zip (map (lev query) ns) fs))"
  using sort_loop_scores [of fs query "[]"] by (auto simp: sort_functions_def)

lemma lev_same: "lev xs xs = 0"
  by (induction xs) auto

section \<open>Facts about the walk and the loops of index_folder\<close>

lemma set_subnodes: "set (subnodes t) = insert t (\<Union>c\<in>set (children t). set (subnodes c))"
  by (cases t) auto

lemma set_walk_todo: "set (walk_todo todo) = (\<Union>t\<in>set todo. set (subnodes t))"
proof (induction todo rule: walk_todo.induct)
  case 1
  then show ?case by simp
next
  case (2 node todo)
  have "set (walk_todo (node # todo)) = insert node (set (walk_todo (todo @ children node)))"
    by simp
  also have "\<dots> = insert node ((\<Union>t\<in>set todo. set (subnodes t)) \<union>
      (\<Union>c\<in>set (children node). set (subnodes c)))"
    using "2.IH" by (simp add: Un_commute)
  also have "\<dots> = set (subnodes node) \<union> (\<Union>t\<in>set todo. set (subnodes t))"
    by (subst set_subnodes [of node]) auto
  finally show ?case by simp
qed

lemma set_walk: "set (walk t) = set (subnodes t)"
  unfolding walk_def set_walk_todo by simp

lemma index_nodes_result:
  "\<exists>new. index_nodes w fname nodes acc = Inr (acc @ new) \<and>
     (\<forall>r\<in>set new. \<not> startswith (name r) ''__'') \<and>
     (\<forall>n as l cs. FunctionDef n as l cs \<in> set nodes \<and> \<not> startswith n ''__'' \<longrightarrow>
        \<lparr>name = n, args = as, filename = fname, line = l\<rparr> \<in> set new)"
proof (induction nodes arbitrary: acc)
  case Nil
  then show ?case by simp
next
  case (Cons node nodes)
  have skip: ?case if same: "index_nodes w fname (node # nodes) acc = index_nodes w fname nodes acc"
    and out: "\<And>n as l cs. node = FunctionDef n as l cs \<Longrightarrow> startswith n ''__''"
  proof -
    obtain new where new: "index_nodes w fname nodes acc = Inr (acc @ new)"
      and dunder: "\<forall>r\<in>set new. \<not> startswith (name r) ''__''"
      and found: "\<And>n as l cs. FunctionDef n as l cs \<in> set nodes \<Longrightarrow> \<not> startswith n ''__'' \<Longrightarrow>
          \<lparr>name = n, args = as, filename = fname, line = l\<rparr> \<in> set new"
      using Cons.IH [of acc] by blast
    have "\<forall>n as l cs. FunctionDef n as l cs \<in> set (node # nodes) \<and> \<not> startswith n ''__'' \<longrightarrow>
          \<lparr>name = n, args = as, filename = fname, line = l\<rparr> \<in> set new"
      using found out by auto
    with new dunder same show ?thesis by auto
  qed
  show ?case
  proof (cases node)
    case (Node cs)
    then show ?thesis by (intro skip) simp_all
  next
    case (AsyncFunctionDef n as l cs)
    then show ?thesis by (intro skip) simp_all
  next
    case (FunctionDef n as l cs)
    show ?thesis
    proof (cases "startswith n ''__''")
      case True
      then show ?thesis using FunctionDef by (intro skip) simp_all
    next
      case False
      let ?r = "\<lparr>name = n, args = as, filename = fname, line = l\<rparr>"
      obtain new where new: "index_nodes w fname nodes (acc @ [?r]) = Inr ((acc @ [?r]) @ new)"
        and dunder: "\<forall>r\<in>set new. \<not> startswith (name r) ''__''"
        and found: "\<And>n as l cs. FunctionDef n as l cs \<in> set nodes \<Longrightarrow> \<not> startswith n ''__'' \<Longrightarrow>
          \<lparr>name = n, args = as, filename = fname, line = l\<rparr> \<in> set new"
        using Cons.IH [of "acc @ [?r]"] by blast
      have "index_nodes w fname (node # nodes) acc = Inr (acc @ (?r # new))"
        using FunctionDef False new by simp
      moreover have "\<forall>r\<in>set (?r # new). \<not> startswith (name r) ''__''"
        using False dunder by simp
      moreover have "\<forall>n' as' l' cs'. FunctionDef n' as' l' cs' \<in> set (node # nodes) \<and> \<not> startswith n' ''__'' \<longrightarrow>
          \<lparr>name = n', args = as', filename = fname, line = l'\<rparr> \<in> set (?r # new)"
        using FunctionDef found by auto
      ultimately show ?thesis by blast
    qed
  qed
qed

lemma index_files_fails:
  assumes "fname \<in> set fnames" "isfile w fname" "want_to_continue fname ign"
    and "source_text w fname = Some src" "ast_parse w src = None"
  shows "index_files w ign fnames acc = Inl SyntaxError \<or> index_files w ign fnames acc = Inl OSError"
  using assms(1)
proof (induction fnames arbitrary: acc)
  case Nil
  then show ?case by simp
next
  case (Cons f fnames)
  show ?case
  proof (cases "f = fname")
    case True
    then show ?thesis using assms by (simp add: read_source_file_def)
  next
    case False
    then have later: "\<And>acc. index_files w ign fnames acc = Inl SyntaxError \<or>
        index_files w ign fnames acc = Inl OSError"
      using Cons by simp
    show ?thesis
    proof (cases "isfile w f \<and> want_to_continue f ign")
      case False
      then show ?thesis using later [of acc] by auto
    next
      case True
      show ?thesis
      proof (cases "source_text w f")
        case None
        then show ?thesis using True by (simp add: read_source_file_def)
      next
        case (Some content)
        show ?thesis
        proof (cases "ast_parse w content")
          case None
          then show ?thesis using True Some by (simp add: read_source_file_def)
        next
          case (Some parsed)
          obtain new where "index_nodes w f (walk parsed) acc = Inr (acc @ new)"
            using index_nodes_result [of w f "walk parsed" acc] by blast
          then show ?thesis
            using True \<open>source_text w f = Some content\<close> Some later [of "acc @ new"]
            by (simp add: read_source_file_def)
        qed
      qed
    qed
  qed
qed

section \<open>Facts about empty argument lists\<close>

lemma strip_all_space: "\<forall>c\<in>set ws. isspace c \<Longrightarrow> rstrip (lstrip ws) = []"
proof -
  assume "\<forall>c\<in>set ws. isspace c"
  then have "dropWhile isspace ws = []" by simp
  then show ?thesis by (simp only: lstrip_def rstrip_def rev.simps dropWhile.simps)
qed

section \<open>Claims\<close>

text \<open>
  C1 (as amended). \<open>sort\<close> scores every record with the edit distance between the
  query as it was passed and the normalized signature of the record: every signature
  normalizes (to the list \<open>ns\<close>), \<open>sort\<close> returns, and its pairs are the records paired
  with \<open>lev query n\<close>. \<open>sort\<close> does not normalize the query; the entry point does that
  before the call.
\<close>

theorem sort_scores_raw_query:
  "\<exists>ns ys. map (\<lambda>f. normalize_sig (get_signature f False)) fs = map Inr ns \<and>
     sort_functions query fs = Inr ys \<and>
     mset ys = mset (zip (map (lev query) ns) fs)"
  using sort_functions_scores [of fs query] by auto

text \<open>
  The claim as stated fails: for the query \<open>f(x)\<close> and a record with the same signature,
  the distance between the two normalized strings is 0, and \<open>sort\<close> gives the score 3.
\<close>

theorem sort_does_not_normalize_query:
  "sort_functions ''f(x)'' [\<lparr>name = ''f'', args = [''x''], filename = ''a.py'', line = 1\<rparr>] =
     Inr [(3, \<lparr>name = ''f'', args = [''x''], filename = ''a.py'', line = 1\<rparr>)] \<and>
   normalize_sig ''f(x)'' = Inr ''f ( x )'' \<and>
   normalize_sig (get_signature \<lparr>name = ''f'', args = [''x''], filename = ''a.py'', line = 1\<rparr> False) = Inr ''f ( x )'' \<and>
   lev ''f ( x )'' ''f ( x )'' = 0"
proof -
  have sig: "get_signature \<lparr>name = ''f'', args = [''x''], filename = ''a.py'', line = 1\<rparr> False = ''f(x)''"
    by (simp add: get_signature_def)
  have norm: "normalize_sig ''f(x)'' = Inr ''f ( x )''"
    by (simp add: normalize_sig_def replace_empty_def lstrip_def rstrip_def isspace_def)
  have dist: "lev ''f(x)'' ''f ( x )'' = 3"
    by simp
  have "sort_functions ''f(x)'' [\<lparr>name = ''f'', args = [''x''], filename = ''a.py'', line = 1\<rparr>] =
     Inr [(3, \<lparr>name = ''f'', args = [''x''], filename = ''a.py'', line = 1\<rparr>)]"
    by (simp only: sort_functions_def sort_loop.simps sig norm dist sum.case append_Nil sort_key_simps insort_key.simps)
  then show ?thesis
    by (simp only: sig norm lev_same simp_thms)
qed

text \<open>
  C2. When the cache document exists, \<open>index_folder\<close> returns the list stored in it,
  whatever \<open>base_folder\<close> and \<open>folders_to_ignore\<close> are and whatever the directory holds,
  and leaves the world as it was: nothing is scanned, appended or written.
\<close>

theorem cache_short_circuit:
  "json_output w = Some cached \<Longrightarrow> index_folder w base_folder arg = (Inr cached, w)"
  by (simp add: index_folder_def read_json_file_def)

theorem cache_short_circuit_witness:
  "json_output (example_world\<lparr>json_output := Some []\<rparr>) = Some [] \<and>
   index_folder (example_world\<lparr>json_output := Some []\<rparr>) ''proj'' (Some 7) =
     (Inr [], example_world\<lparr>json_output := Some []\<rparr>)"
  using cache_short_circuit [of "example_world\<lparr>json_output := Some []\<rparr>" "[]" "''proj''" "Some 7"]
  by simp

text \<open>
  C3. The result of \<open>sort\<close> is in ascending order of score, and it is stable: for every
  score \<open>k\<close>, the pairs with that score come in the order the records have in the input.
\<close>

theorem sort_ascending_stable:
  "\<exists>ns ys. map (\<lambda>f. normalize_sig (get_signature f False)) fs = map Inr ns \<and>
     sort_functions query fs = Inr ys \<and>
     sorted (map fst ys) \<and>
     (\<forall>k. filter (\<lambda>p. fst p = k) ys =
          filter (\<lambda>p. fst p = k) (zip (map (lev query) ns) fs))"
  using sort_functions_scores [of fs query] by (auto simp: sort_key_stable)

theorem sort_ascending_stable_witness:
  "sort_functions ''a''
     [\<lparr>name = ''ab'', args = [], filename = ''m.py'', line = 1\<rparr>,
      \<lparr>name = ''a'', args = [], filename = ''m.py'', line = 2\<rparr>,
      \<lparr>name = ''b'', args = [], filename = ''m.py'', line = 3\<rparr>] =
   Inr [(5, \<lparr>name = ''a'', args = [], filename = ''m.py'', line = 2\<rparr>),
        (6, \<lparr>name = ''ab'', args = [], filename = ''m.py'', line = 1\<rparr>),
        (6, \<lparr>name = ''b'', args = [], filename = ''m.py'', line = 3\<rparr>)]"
  using sort_ascending_stable [of
      "[\<lparr>name = ''ab'', args = [], filename = ''m.py'', line = 1\<rparr>,
        \<lparr>name = ''a'', args = [], filename = ''m.py'', line = 2\<rparr>,
        \<lparr>name = ''b'', args = [], filename = ''m.py'', line = 3\<rparr>]" "''a''"]
  by (simp add: sort_functions_def normalize_sig_def get_signature_def replace_empty_def
      lstrip_def rstrip_def)

text \<open>
  C4. On a run that finds no cache: if a file that \<open>glob\<close> yields and the test of line
  110 selects does not parse, \<open>index_folder\<close> raises (the syntax error, or the error of
  a file it could not read before), and no cache document exists afterwards: \<open>save_json\<close>
  comes after the loop and is not reached.
\<close>

theorem parse_error_aborts_without_cache:
  assumes "json_output w = None"
    and "fname \<in> set (iglob w (base_folder @ ''/**''))"
    and "isfile w fname"
    and "want_to_continue fname
           (list_objects w (case arg of None \<Rightarrow> folders_to_ignore_default | Some r \<Rightarrow> r) @
            list_objects w STDLIB_IGNORE)"
    and "source_text w fname = Some src" and "ast_parse w src = None"
  shows "\<exists>e w'. index_folder w base_folder arg = (Inl e, w') \<and>
           (e = SyntaxError \<or> e = OSError) \<and> json_output w' = None"
proof -
  let ?r = "case arg of None \<Rightarrow> folders_to_ignore_default | Some r \<Rightarrow> r"
  let ?w1 = "w\<lparr>list_objects :=
      (list_objects w)(?r := list_objects w ?r @ list_objects w STDLIB_IGNORE)\<rparr>"
  have "index_files ?w1 (list_objects ?w1 ?r) (iglob ?w1 (base_folder @ ''/**'')) [] = Inl SyntaxError \<or>
        index_files ?w1 (list_objects ?w1 ?r) (iglob ?w1 (base_folder @ ''/**'')) [] = Inl OSError"
    using assms by (intro index_files_fails [where fname = fname and src = src]) simp_all
  then show ?thesis
    using assms(1) by (auto simp: index_folder_def Let_def)
qed

theorem parse_error_aborts_without_cache_witness:
  "json_output broken_world = None \<and>
   ''proj/bad.py'' \<in> set (iglob broken_world (''proj'' @ ''/**'')) \<and>
   isfile broken_world ''proj/bad.py'' \<and>
   want_to_continue ''proj/bad.py''
     (list_objects broken_world folders_to_ignore_default @ list_objects broken_world STDLIB_IGNORE) \<and>
   source_text broken_world ''proj/bad.py'' = Some ''def ('' \<and>
   ast_parse broken_world ''def ('' = None \<and>
   (\<exists>e w'. index_folder broken_world ''proj'' None = (Inl e, w') \<and>
      (e = SyntaxError \<or> e = OSError) \<and> json_output w' = None)"
proof -
  have h: "json_output broken_world = None"
    "''proj/bad.py'' \<in> set (iglob broken_world (''proj'' @ ''/**''))"
    "isfile broken_world ''proj/bad.py''"
    "want_to_continue ''proj/bad.py''
       (list_objects broken_world (case None of None \<Rightarrow> folders_to_ignore_default | Some r \<Rightarrow> r) @
        list_objects broken_world STDLIB_IGNORE)"
    "source_text broken_world ''proj/bad.py'' = Some ''def (''"
    "ast_parse broken_world ''def ('' = None"
    by (simp_all add: broken_world_def example_world_def want_to_continue_def endswith_def
        list_objects_at_import_def STDLIB_IGNORE_def folders_to_ignore_default_def)
  from parse_error_aborts_without_cache [OF h] h show ?thesis by simp
qed

text \<open>
  C5. An input with no opening parenthesis makes \<open>normalize_sig\<close> fail: \<open>split_query\<close> has
  one element only, so \<open>split_query[1]\<close> raises (the error the specification names
  MalformedSignature), and \<open>normalize_sig\<close> has no handler: the error is its result.
\<close>

theorem normalize_no_paren_fails:
  "CHR ''('' \<notin> set query \<Longrightarrow> normalize_sig query = Inl IndexError"
  by (simp add: normalize_sig_def split_no_sep)

theorem normalize_no_paren_fails_witness:
  "CHR ''('' \<notin> set ''is zipfile'' \<and> normalize_sig ''is zipfile'' = Inl IndexError"
  using normalize_no_paren_fails [of "''is zipfile''"] by simp

text \<open>
  C6. For every tree, the records extracted from it hold no name that starts with two
  underscores, and every \<open>FunctionDef\<close> node of the tree, at any depth, whose name does
  not start with two underscores has its record in the result: \<open>__init__\<close> is left
  out, \<open>_private\<close> is there.
\<close>

theorem extraction_excludes_dunder_only:
  "\<exists>recs. index_nodes w fname (walk parsed) [] = Inr recs \<and>
     (\<forall>r\<in>set recs. \<not> startswith (name r) ''__'') \<and>
     (\<forall>n as l cs. FunctionDef n as l cs \<in> set (subnodes parsed) \<and> \<not> startswith n ''__'' \<longrightarrow>
        \<lparr>name = n, args = as, filename = fname, line = l\<rparr> \<in> set recs)"
  using index_nodes_result [of w fname "walk parsed" "[]"] by (simp add: set_walk)

theorem extraction_excludes_dunder_only_witness:
  "index_nodes example_world ''proj/a.py'' (walk example_tree) [] =
     Inr [\<lparr>name = ''mainloop'', args = [], filename = ''proj/a.py'', line = 9\<rparr>,
          \<lparr>name = ''_private'', args = [''self'', ''x''], filename = ''proj/a.py'', line = 4\<rparr>,
          \<lparr>name = ''inner'', args = [], filename = ''proj/a.py'', line = 5\<rparr>] \<and>
   FunctionDef ''__init__'' [''self''] 2 [Node []] \<in> set (subnodes example_tree) \<and>
   startswith ''__init__'' ''__'' \<and>
   FunctionDef ''_private'' [''self'', ''x''] 4 [FunctionDef ''inner'' [] 5 []] \<in> set (subnodes example_tree) \<and>
   \<not> startswith ''_private'' ''__''"
  using extraction_excludes_dunder_only [of example_world "''proj/a.py''" example_tree]
  by (simp add: example_tree_def walk_def startswith_def)

text \<open>
  C7. The test of line 110 is \<open>filename.endswith('py')\<close>, without the dot: the file
  \<open>proj/copy\<close> has no \<open>.py\<close> extension, lies in no ignored folder, is selected and
  parsed all the same, and here makes the run fail.
\<close>

theorem selects_file_without_py_extension:
  "isfile copy_world ''proj/copy'' \<and> \<not> endswith ''proj/copy'' ''.py'' \<and>
   want_to_continue ''proj/copy''
     (list_objects copy_world folders_to_ignore_default @ list_objects copy_world STDLIB_IGNORE) \<and>
   fst (index_folder copy_world ''proj'' None) = Inl SyntaxError"
  by (simp add: index_folder_def copy_world_def example_world_def want_to_continue_def
      endswith_def list_objects_at_import_def STDLIB_IGNORE_def folders_to_ignore_default_def
      read_source_file_def)

text \<open>
  C8 (as amended). When the text between the parentheses is empty or only white space,
  \<open>normalize\<close> yields the name, a space, and \<open>(  )\<close> with two spaces: the one empty
  token joins to the empty string, so the result is the zero-argument form itself.
\<close>

theorem normalize_empty_args:
  assumes "CHR ''('' \<notin> set nm" and "\<forall>c\<in>set ws. isspace c"
  shows "normalize_sig (nm @ ''('' @ ws @ '')'') =
         Inr (join ''_'' (filter (\<lambda>a. a \<noteq> []) (split CHR '' '' nm)) @ '' (  )'')"
proof -
  have ws: "CHR ''('' \<notin> set ws" "CHR '')'' \<notin> set ws" "CHR '','' \<notin> set ws"
    using assms(2) by (auto simp: isspace_def)
  have "split CHR ''('' (nm @ CHR ''('' # (ws @ '')'')) = nm # split CHR ''('' (ws @ '')'')"
    using assms(1) by (rule split_append_sep)
  moreover have "split CHR ''('' (ws @ '')'') = [ws @ '')'']"
    using ws(1) by (intro split_no_sep) simp
  ultimately have sp: "split CHR ''('' (nm @ ''('' @ ws @ '')'') = nm # (ws @ '')'') # []"
    by simp
  have rep: "replace_empty CHR '')'' (ws @ '')'') = ws"
    using ws(2) by (auto simp: replace_empty_def filter_id_conv)
  have one: "split CHR '','' ws = [ws]"
    using ws(3) by (rule split_no_sep)
  show ?thesis
    unfolding normalize_sig_pieces [OF sp] rep one
    by (simp add: strip_all_space [OF assms(2)])
qed

theorem normalize_empty_args_witness:
  "CHR ''('' \<notin> set ''is zipfile '' \<and> list_all isspace ''   '' \<and>
   normalize_sig ''is zipfile (   )'' = Inr ''is_zipfile (  )''"
proof -
  have h: "CHR ''('' \<notin> set ''is zipfile ''" "\<forall>c\<in>set ''   ''. isspace c"
    by (simp_all add: isspace_def)
  from normalize_empty_args [OF h] h show ?thesis by (simp add: list_all_iff)
qed

text \<open>
  The claim as stated fails: for \<open>f()\<close> and \<open>f(   )\<close> the result is \<open>f (  )\<close>, the clean
  zero-argument form, with nothing more before the closing parenthesis.
\<close>

theorem normalize_empty_args_clean:
  "normalize_sig ''f()'' = Inr ''f (  )'' \<and> normalize_sig ''f(   )'' = Inr ''f (  )''"
  by (simp add: normalize_sig_def replace_empty_def lstrip_def rstrip_def isspace_def)

text \<open>
  C9. Normalization is idempotent: an input with an opening parenthesis is
  normalized to a string that \<open>normalize\<close> maps to itself, so
  \<open>normalize(normalize(x)) = normalize(x)\<close>, and the strings \<open>normalize\<close> produces are
  its fixed points.
\<close>

theorem normalize_idempotent:
  assumes "CHR ''('' \<in> set x"
  shows "\<exists>y. normalize_sig x = Inr y \<and> normalize_sig y = Inr y"
proof -
  obtain n0 a0 rest where sp: "split CHR ''('' x = n0 # a0 # rest"
    using split_two [OF assms] by blast
  let ?toks = "filter (\<lambda>a. a \<noteq> []) (split CHR '' '' n0)"
  let ?nm = "join ''_'' ?toks"
  let ?ts = "map (\<lambda>a. rstrip (lstrip a)) (split CHR '','' (replace_empty CHR '')'' a0))"
  have n0: "CHR ''('' \<notin> set n0" and a0: "CHR ''('' \<notin> set a0"
    using split_piece_no_sep [of _ "CHR ''(''" x] sp by simp_all
  have toks: "\<forall>w\<in>set ?toks. CHR '' '' \<notin> set w \<and> CHR ''('' \<notin> set w"
    using split_piece_no_sep [of _ "CHR '' ''" n0] split_piece_subset [of _ "CHR '' ''" n0] n0
    by auto
  have "set ?nm \<subseteq> set ''_'' \<union> \<Union> (set ` set ?toks)" by (rule set_join)
  with toks have nm: "CHR '' '' \<notin> set ?nm" "CHR ''('' \<notin> set ?nm" by auto
  have ne: "?ts \<noteq> []" by (simp add: split_not_Nil)
  have a1: "CHR ''('' \<notin> set (replace_empty CHR '')'' a0)" "CHR '')'' \<notin> set (replace_empty CHR '')'' a0)"
    using a0 by (simp_all add: replace_empty_def)
  have pieces: "\<forall>p\<in>set (split CHR '','' (replace_empty CHR '')'' a0)).
      CHR '','' \<notin> set p \<and> CHR ''('' \<notin> set p \<and> CHR '')'' \<notin> set p"
    using split_piece_no_sep [of _ "CHR '',''" "replace_empty CHR '')'' a0"]
      split_piece_subset [of _ "CHR '',''" "replace_empty CHR '')'' a0"] a1
    by auto
  have ts: "\<forall>t\<in>set ?ts. CHR '','' \<notin> set t \<and> (t = [] \<or> (\<not> isspace (hd t) \<and> \<not> isspace (last t)))"
    using pieces set_strip_subset strip_stripped by auto
  have par: "\<forall>t\<in>set ?ts. CHR ''('' \<notin> set t \<and> CHR '')'' \<notin> set t"
    using pieces set_strip_subset by auto
  have "normalize_sig x = Inr (?nm @ '' ( '' @ join '', '' ?ts @ '' )'')"
    by (rule normalize_sig_pieces [OF sp])
  moreover have "normalize_sig (?nm @ '' ( '' @ join '', '' ?ts @ '' )'') =
      Inr (?nm @ '' ( '' @ join '', '' ?ts @ '' )'')"
    by (rule normalize_sig_canonical [OF nm ne ts par])
  ultimately show ?thesis by blast
qed

theorem normalize_idempotent_witness:
  "CHR ''('' \<in> set ''is   zipfile( a,b )'' \<and>
   (\<exists>y. normalize_sig ''is   zipfile( a,b )'' = Inr y \<and> normalize_sig y = Inr y)"
  using normalize_idempotent [of "''is   zipfile( a,b )''"] by simp

text \<open>
  C10 (as amended). A call that finds no cache extends, in place, the list bound to
  \<open>folders_to_ignore\<close> by what the list \<open>STDLIB_IGNORE\<close> holds at that moment, and
  changes no other list: the list is the one the caller passed, or the one shared
  default list when the argument is left out, which so grows with every such call.
  \<open>STDLIB_IGNORE\<close> holds its three built-in entries unless a caller has passed that list
  itself, which the append then doubles. A call that finds the cache returns before
  the append and changes no list.
\<close>

theorem ignore_list_grows_on_fresh_run:
  "list_objects (snd (index_folder w base_folder arg)) =
     (if json_output w = None
      then (list_objects w)
             ((case arg of None \<Rightarrow> folders_to_ignore_default | Some r \<Rightarrow> r) :=
                list_objects w (case arg of None \<Rightarrow> folders_to_ignore_default | Some r \<Rightarrow> r)
                  @ list_objects w STDLIB_IGNORE)
      else list_objects w)"
  by (auto simp: index_folder_def save_json_def Let_def split: sum.splits option.splits)

text \<open>
  Two runs that fail on \<open>proj/bad.py\<close>, so that no cache is written: the default list
  is empty at first, holds three entries after the first call and six after the
  second. A run that is passed \<open>STDLIB_IGNORE\<close> itself leaves that list with six entries,
  and the next run without the argument appends all six to the default list.
\<close>

theorem ignore_list_grows_on_fresh_run_witness:
  "json_output broken_world = None \<and>
   json_output (snd (index_folder broken_world ''proj'' None)) = None \<and>
   list_objects broken_world folders_to_ignore_default = [] \<and>
   list_objects (snd (index_folder broken_world ''proj'' None)) folders_to_ignore_default =
     [''test'', ''site-packages'', ''lib2to3''] \<and>
   list_objects (snd (index_folder (snd (index_folder broken_world ''proj'' None)) ''proj'' None))
       folders_to_ignore_default =
     [''test'', ''site-packages'', ''lib2to3'', ''test'', ''site-packages'', ''lib2to3''] \<and>
   json_output (snd (index_folder broken_world ''proj'' (Some STDLIB_IGNORE))) = None \<and>
   list_objects (snd (index_folder broken_world ''proj'' (Some STDLIB_IGNORE))) STDLIB_IGNORE =
     [''test'', ''site-packages'', ''lib2to3'', ''test'', ''site-packages'', ''lib2to3''] \<and>
   list_objects (snd (index_folder (snd (index_folder broken_world ''proj'' (Some STDLIB_IGNORE)))
       ''proj'' None)) folders_to_ignore_default =
     [''test'', ''site-packages'', ''lib2to3'', ''test'', ''site-packages'', ''lib2to3'']"
proof -
  let ?w1 = "snd (index_folder broken_world ''proj'' None)"
  let ?w2 = "snd (index_folder broken_world ''proj'' (Some STDLIB_IGNORE))"
  have none: "json_output broken_world = None"
    by (simp add: broken_world_def example_world_def)
  have first: "index_folder broken_world ''proj'' None =
      (Inl SyntaxError, broken_world\<lparr>list_objects := (list_objects broken_world)
         (folders_to_ignore_default :=
            list_objects broken_world folders_to_ignore_default @
            list_objects broken_world STDLIB_IGNORE)\<rparr>)"
    by (simp add: index_folder_def broken_world_def example_world_def want_to_continue_def
        endswith_def list_objects_at_import_def STDLIB_IGNORE_def read_source_file_def
        example_tree_def walk_def startswith_def folders_to_ignore_default_def)
  have doubled: "index_folder broken_world ''proj'' (Some STDLIB_IGNORE) =
      (Inl SyntaxError, broken_world\<lparr>list_objects := (list_objects broken_world)
         (STDLIB_IGNORE :=
            list_objects broken_world STDLIB_IGNORE @ list_objects broken_world STDLIB_IGNORE)\<rparr>)"
    by (simp add: index_folder_def broken_world_def example_world_def want_to_continue_def
        endswith_def list_objects_at_import_def STDLIB_IGNORE_def read_source_file_def
        example_tree_def walk_def startswith_def folders_to_ignore_default_def)
  have none1: "json_output ?w1 = None"
    by (simp add: first none)
  have none2: "json_output ?w2 = None"
    by (simp add: doubled none)
  show ?thesis
    using ignore_list_grows_on_fresh_run [of broken_world "''proj''" None]
      ignore_list_grows_on_fresh_run [of ?w1 "''proj''" None]
      ignore_list_grows_on_fresh_run [of broken_world "''proj''" "Some STDLIB_IGNORE"]
      ignore_list_grows_on_fresh_run [of ?w2 "''proj''" None]
      none none1 none2
    by (simp add: list_objects_at_import_def STDLIB_IGNORE_def folders_to_ignore_default_def
        broken_world_def example_world_def)
qed

text \<open>
  The claim as stated fails: with the cache present, a call without the argument leaves
  the default list as it was.
\<close>

theorem cached_call_leaves_ignore_list:
  "json_output (example_world\<lparr>json_output := Some []\<rparr>) \<noteq> None \<and>
   list_objects (snd (index_folder (example_world\<lparr>json_output := Some []\<rparr>) ''proj'' None))
       folders_to_ignore_default =
     list_objects (example_world\<lparr>json_output := Some []\<rparr>) folders_to_ignore_default"
  by (simp add: index_folder_def read_json_file_def)

end
